theory Spec2Isabelle
  imports Main "HOL-Library.Sublist" "HOL-Library.AList"
begin

section \<open>term-img: the command-line front end and the TUI bootstrap\<close>

text \<open>
  A shallow embedding of \<^verbatim>\<open>term_img/cli.py\<close> (\<^verbatim>\<open>check_dir\<close>, \<^verbatim>\<open>main\<close>) and of
  \<^verbatim>\<open>term_img/tui/__init__.py\<close> (\<^verbatim>\<open>init\<close>). The operating system, the image
  codec, the HTTP client and the widget toolkit are not code of the package: they are
  parameters of the model (records of functions), so every theorem holds for every
  file system and every outcome of those calls, and a concrete file system is a value
  of the record.
\<close>

subsection \<open>The host as \<^verbatim>\<open>check_dir\<close> sees it\<close>

text \<open>
  The functions of the standard library and of the image library that \<^verbatim>\<open>check_dir\<close>
  calls and that are written in Python: each call of one needs a number of free
  interpreter frames, its own and those of the functions it calls in turn.
\<close>

datatype helper =
  Isfile | Islink | Exists | Realpath | Isdir | Abspath | Log | LogException | Open

text \<open>
  Every query takes the working directory first: the source passes entry names that
  the operating system resolves against the process working directory. The working
  directory is the string \<^verbatim>\<open>os.getcwd()\<close> returns. The file system does not change
  while a scan runs. \<open>need\<close> gives the number of frames a call of each helper needs on
  this host; it is a parameter, as the file system is.
\<close>

record fsys =
  os_chdir :: "string \<Rightarrow> string \<Rightarrow> string option"
    \<comment> \<open>\<^verbatim>\<open>os.chdir(p)\<close> from a working directory: the new one, or \<open>None\<close> for \<^verbatim>\<open>OSError\<close>\<close>
  os_listdir :: "string \<Rightarrow> string list option"
    \<comment> \<open>\<^verbatim>\<open>os.listdir()\<close> of the working directory, or \<open>None\<close> for \<^verbatim>\<open>OSError\<close>\<close>
  isfile :: "string \<Rightarrow> string \<Rightarrow> bool"
  islink :: "string \<Rightarrow> string \<Rightarrow> bool"
  isdir :: "string \<Rightarrow> string \<Rightarrow> bool"
  path_exists :: "string \<Rightarrow> string \<Rightarrow> bool"
  realpath :: "string \<Rightarrow> string \<Rightarrow> string"
  pil_open :: "string \<Rightarrow> string \<Rightarrow> bool"
    \<comment> \<open>the file decodes: \<^verbatim>\<open>PIL.Image.open(entry)\<close> returns when it has the frames it needs\<close>
  need :: "helper \<Rightarrow> nat"

datatype log_event =
    CouldNotAccess string string
  | CouldNotList string
  | TooDeep string

text \<open>
  What a scan changes: the working directory and the log. \<open>probed\<close> lists the calls
  of \<^verbatim>\<open>PIL.Image.open\<close> (working directory and entry), in order.
\<close>

record state =
  cwd :: string
  logged :: "log_event list"
  probed :: "(string \<times> string) list"

datatype exn = RecursionError | OSError | OtherError

text \<open>The directory tree: a \<^verbatim>\<open>dict\<close> from entry name to the entry's own tree.\<close>

datatype tree = Tree "(string \<times> tree) list"

type_synonym content = "(string \<times> tree) list"

subsection \<open>\<^verbatim>\<open>check_dir\<close>\<close>

text \<open>
  The source catches \<^verbatim>\<open>RecursionError\<close>, so the model says where one is raised. The
  budget of \<open>check_dir\<close> is the number of frames the interpreter still allows. A call
  of \<open>check_dir\<close> takes one; with none left the call itself raises, before the callee
  runs. Inside a call with \<open>r\<close> frames left, a call of a helper \<open>h\<close> raises
  \<^verbatim>\<open>RecursionError\<close> when \<open>r < need fs h\<close>; the built-ins \<^verbatim>\<open>os.chdir\<close>, \<^verbatim>\<open>os.listdir\<close>,
  \<^verbatim>\<open>os.getcwd\<close> and \<^verbatim>\<open>str.startswith\<close> need no frame. A logging call that raises
  has logged nothing.
\<close>

definition hidden :: "string \<Rightarrow> bool" where
  "hidden entry = prefix ''.'' entry"

definition follow_link :: "fsys \<Rightarrow> string \<Rightarrow> string \<Rightarrow> bool" where
  "follow_link fs c entry =
     (path_exists fs c entry \<and> \<not> prefix (realpath fs c entry) c)"

text \<open>
  The body of the \<^verbatim>\<open>try\<close> of lines 69 to 85, for an entry that is not a regular
  file, with \<open>r\<close> frames left: a link is scanned when \<open>follow_link\<close> holds, with the
  current working directory as \<^verbatim>\<open>prev_dir\<close>; another entry is scanned when it is a
  directory, with the default \<^verbatim>\<open>prev_dir\<close>; anything else gives \<^verbatim>\<open>None\<close>. The queries
  are made in the order of the source, \<^verbatim>\<open>os.path.realpath\<close> only for a link that
  exists; one that lacks its frames raises \<^verbatim>\<open>RecursionError\<close> with nothing changed.
  \<open>call\<close> is the recursive call of \<^verbatim>\<open>check_dir\<close>: state, directory, \<^verbatim>\<open>prev_dir\<close>.
\<close>

definition scan_entry ::
  "fsys \<Rightarrow> nat \<Rightarrow> (state \<Rightarrow> string \<Rightarrow> string \<Rightarrow> (exn + tree option) \<times> state) \<Rightarrow>
   state \<Rightarrow> string \<Rightarrow> (exn + tree option) \<times> state" where
  "scan_entry fs r call s entry =
     (if r < need fs Islink then (Inl RecursionError, s)
      else if islink fs (cwd s) entry then
        (if r < need fs Exists then (Inl RecursionError, s)
         else if \<not> path_exists fs (cwd s) entry then (Inr None, s)
         else if r < need fs Realpath then (Inl RecursionError, s)
         else if follow_link fs (cwd s) entry then call s entry (cwd s)
         else (Inr None, s))
      else
        (if r < need fs Isdir then (Inl RecursionError, s)
         else if isdir fs (cwd s) entry then call s entry ''..''
         else (Inr None, s)))"

text \<open>
  The loop over the entries (lines 56 to 94), with \<open>r\<close> frames left. The result is
  the pair of the source's \<^verbatim>\<open>empty\<close> and \<^verbatim>\<open>content\<close> when the loop ends or breaks,
  and the exception when one leaves the function.
  \<^item> \<^verbatim>\<open>os.path.isfile\<close> on line 59 stands outside every \<^verbatim>\<open>try\<close>: its
    \<^verbatim>\<open>RecursionError\<close> leaves the function, with the working directory where it is.
  \<^item> A file is opened only while \<^verbatim>\<open>empty\<close> holds. \<^verbatim>\<open>except Exception: pass\<close> around
    \<^verbatim>\<open>PIL.Image.open\<close> also swallows the \<^verbatim>\<open>RecursionError\<close> of an open that lacks its
    frames: \<^verbatim>\<open>empty\<close> is cleared only when the open has its frames and the file
    decodes.
  \<^item> The handler of \<^verbatim>\<open>except RecursionError\<close> calls the logger: with the frames for
    it, the error is logged and the loop ends (\<^verbatim>\<open>break\<close>); without them the logger's
    own \<^verbatim>\<open>RecursionError\<close> leaves the function.
  \<^item> \<^verbatim>\<open>content[entry] = result\<close> is \<open>AList.update\<close>: a \<^verbatim>\<open>dict\<close> keeps one value per key.
\<close>

fun check_entries ::
  "fsys \<Rightarrow> bool \<Rightarrow> bool \<Rightarrow> nat \<Rightarrow>
   (state \<Rightarrow> string \<Rightarrow> string \<Rightarrow> (exn + tree option) \<times> state) \<Rightarrow>
   string list \<Rightarrow> bool \<Rightarrow> content \<Rightarrow> state \<Rightarrow> (exn + bool \<times> content) \<times> state" where
  "check_entries fs recursive show_hidden r call [] is_empty content s =
     (Inr (is_empty, content), s)"
| "check_entries fs recursive show_hidden r call (entry # es) is_empty content s =
     (if hidden entry \<and> \<not> show_hidden then
        check_entries fs recursive show_hidden r call es is_empty content s
      else if r < need fs Isfile then (Inl RecursionError, s)
      else if isfile fs (cwd s) entry then
        (if \<not> is_empty then
           check_entries fs recursive show_hidden r call es is_empty content s
         else
           check_entries fs recursive show_hidden r call es
             (\<not> (need fs Open \<le> r \<and> pil_open fs (cwd s) entry)) content
             (s\<lparr>probed := probed s @ [(cwd s, entry)]\<rparr>))
      else if recursive then
        (case scan_entry fs r call s entry of
           (Inl RecursionError, s') \<Rightarrow>
             (if r < need fs Log then (Inl RecursionError, s')
              else (Inr (is_empty, content),
                    s'\<lparr>logged := logged s' @ [TooDeep (cwd s')]\<rparr>))
         | (Inl e, s') \<Rightarrow> (Inl e, s')
         | (Inr None, s') \<Rightarrow>
             check_entries fs recursive show_hidden r call es is_empty content s'
         | (Inr (Some t), s') \<Rightarrow>
             check_entries fs recursive show_hidden r call es is_empty
               (AList.update entry t content) s')
      else check_entries fs recursive show_hidden r call es is_empty content s)"

text \<open>
  \<^verbatim>\<open>check_dir(dir, prev_dir)\<close> with \<^verbatim>\<open>_RECURSIVE\<close> and \<^verbatim>\<open>_SHOW_HIDDEN\<close> as
  parameters. The handlers of \<^verbatim>\<open>except OSError\<close> (lines 37 to 41 and 46 to 52) call
  \<^verbatim>\<open>os.path.abspath\<close> and then the logger; either can lack its frames, and its
  \<^verbatim>\<open>RecursionError\<close> leaves the function. An \<^verbatim>\<open>OSError\<close> of the last
  \<^verbatim>\<open>os.chdir(prev_dir)\<close> is not caught in the source and leaves the function.
\<close>

primrec check_dir ::
  "fsys \<Rightarrow> bool \<Rightarrow> bool \<Rightarrow> nat \<Rightarrow> state \<Rightarrow> string \<Rightarrow> string \<Rightarrow>
   (exn + tree option) \<times> state" where
  "check_dir fs recursive show_hidden 0 = (\<lambda>s dir prev_dir. (Inl RecursionError, s))"
| "check_dir fs recursive show_hidden (Suc r) = (\<lambda>s dir prev_dir.
     (case os_chdir fs (cwd s) dir of
        None \<Rightarrow>
          (if r < need fs Abspath \<or> r < need fs LogException then (Inl RecursionError, s)
           else (Inr None, s\<lparr>logged := logged s @ [CouldNotAccess (cwd s) dir]\<rparr>))
      | Some d \<Rightarrow>
          (case os_listdir fs d of
             None \<Rightarrow>
               (if r < need fs Abspath \<or> r < need fs LogException then
                  (Inl RecursionError, s\<lparr>cwd := d\<rparr>)
                else
                  (case os_chdir fs d prev_dir of
                     None \<Rightarrow>
                       (Inl OSError, s\<lparr>cwd := d, logged := logged s @ [CouldNotList d]\<rparr>)
                   | Some p \<Rightarrow>
                       (Inr None, s\<lparr>cwd := p, logged := logged s @ [CouldNotList d]\<rparr>)))
           | Some entries \<Rightarrow>
               (case check_entries fs recursive show_hidden r
                       (check_dir fs recursive show_hidden r) entries True []
                       (s\<lparr>cwd := d\<rparr>) of
                  (Inl e, s') \<Rightarrow> (Inl e, s')
                | (Inr (is_empty, content), s') \<Rightarrow>
                    (case os_chdir fs (cwd s') prev_dir of
                       None \<Rightarrow> (Inl OSError, s')
                     | Some p \<Rightarrow>
                         (Inr (if is_empty \<and> content = [] then None
                               else Some (Tree content)),
                          s'\<lparr>cwd := p\<rparr>))))))"

subsection \<open>Readable images below a directory\<close>

text \<open>
  An entry of the directory \<open>c\<close> is scanned as a directory (lines 70 to 85): a link
  when it passes the link test, another entry when it is a directory.
\<close>

definition enters :: "fsys \<Rightarrow> string \<Rightarrow> string \<Rightarrow> bool" where
  "enters fs c entry =
     (if islink fs c entry then follow_link fs c entry else isdir fs c entry)"

text \<open>
  The file system's side of "the directory contains a readable image, recursively,
  under the hidden and recursive flags", within the recursion limit:
  \<open>readable_within fs recursive show_hidden b c\<close> holds when, with \<open>b\<close> frames for the
  scan of \<open>c\<close>, a file that decodes lies in \<open>c\<close> or below it, every name on the way
  being listed and not hidden unless hidden entries are shown, every level below \<open>c\<close>
  reached through an entry that is scanned as a directory, with the recursive flag
  set and one frame taken by each level, and the image library having the frames it
  needs where the file lies. It is defined from the file system and the frames the
  helpers need, not from the scan.
\<close>

primrec readable_within :: "fsys \<Rightarrow> bool \<Rightarrow> bool \<Rightarrow> nat \<Rightarrow> string \<Rightarrow> bool" where
  "readable_within fs recursive show_hidden 0 = (\<lambda>c. False)"
| "readable_within fs recursive show_hidden (Suc r) = (\<lambda>c.
     (case os_listdir fs c of
        None \<Rightarrow> False
      | Some entries \<Rightarrow>
          list_ex (\<lambda>entry. \<not> (hidden entry \<and> \<not> show_hidden) \<and>
             (if isfile fs c entry then need fs Open \<le> r \<and> pil_open fs c entry
              else recursive \<and> enters fs c entry \<and>
                   (case os_chdir fs c entry of
                      None \<Rightarrow> False
                    | Some d \<Rightarrow> readable_within fs recursive show_hidden r d)))
            entries))"

text \<open>
  The scan of the directory \<open>c\<close> with \<open>r\<close> frames left can open the entry as an
  image: a file of \<open>c\<close>, not hidden unless hidden entries are shown, that decodes,
  the image library having its frames.
\<close>

definition opens :: "fsys \<Rightarrow> bool \<Rightarrow> nat \<Rightarrow> string \<Rightarrow> string \<Rightarrow> bool" where
  "opens fs show_hidden r c entry =
     (\<not> (hidden entry \<and> \<not> show_hidden) \<and> isfile fs c entry \<and> need fs Open \<le> r \<and>
      pil_open fs c entry)"

text \<open>
  The entries that the tree of the directory \<open>c\<close> should hold when the scan of \<open>c\<close> has
  \<open>r\<close> frames left: the names, not hidden unless hidden entries are shown, that are
  no regular files, are scanned as directories and have a readable image within
  reach.
\<close>

definition kept :: "fsys \<Rightarrow> bool \<Rightarrow> bool \<Rightarrow> nat \<Rightarrow> string \<Rightarrow> string \<Rightarrow> bool" where
  "kept fs recursive show_hidden r c entry =
     (\<not> (hidden entry \<and> \<not> show_hidden) \<and> recursive \<and> \<not> isfile fs c entry \<and>
      enters fs c entry \<and>
      (case os_chdir fs c entry of
         None \<Rightarrow> False
       | Some d \<Rightarrow> readable_within fs recursive show_hidden r d))"

text \<open>
  A path is an ancestor of a working directory, or the directory itself, when the
  directory's path is the path followed by \<^verbatim>\<open>/\<close> and more; the root is an ancestor of
  every absolute path.
\<close>

definition ancestor_or_self :: "string \<Rightarrow> string \<Rightarrow> bool" where
  "ancestor_or_self p c = (c = p \<or> prefix (p @ ''/'') c \<or> (p = ''/'' \<and> prefix p c))"

text \<open>The log of a run holds a recursion-depth error.\<close>

definition too_deep :: "state \<Rightarrow> bool" where
  "too_deep s = list_ex (\<lambda>ev. case ev of TooDeep c \<Rightarrow> True | _ \<Rightarrow> False) (logged s)"

text \<open>
  What the restoring of the working directory needs of the file system, for a set \<open>D\<close>
  of working directories: from wherever \<^verbatim>\<open>os.chdir\<close> leads out of a directory of \<open>D\<close>,
  the directory's own path leads back to it; and from a listed entry that is not a
  link, \<^verbatim>\<open>..\<close> leads back to it.
\<close>

definition returns :: "fsys \<Rightarrow> string set \<Rightarrow> bool" where
  "returns fs D =
     ((\<forall>c \<in> D. \<forall>e d. os_chdir fs c e = Some d \<longrightarrow> d \<in> D \<and> os_chdir fs d c = Some c)
      \<and> (\<forall>c \<in> D. \<forall>es e d. os_listdir fs c = Some es \<longrightarrow> e \<in> set es \<longrightarrow>
            \<not> islink fs c e \<longrightarrow> os_chdir fs c e = Some d \<longrightarrow> os_chdir fs d ''..'' = Some c))"

text \<open>
  A call restores the working directory: when it returns with no recursion-depth
  error in the log, it has either not entered the directory and left the working
  directory alone, or it has left it where \<^verbatim>\<open>prev_dir\<close> leads from inside the
  directory.
\<close>

definition call_restores ::
  "fsys \<Rightarrow> string set \<Rightarrow> (state \<Rightarrow> string \<Rightarrow> string \<Rightarrow> (exn + tree option) \<times> state) \<Rightarrow> bool" where
  "call_restores fs D call =
     (\<forall>s e p res s'. cwd s \<in> D \<longrightarrow> call s e p = (Inr res, s') \<longrightarrow> \<not> too_deep s' \<longrightarrow>
        (case os_chdir fs (cwd s) e of
           None \<Rightarrow> cwd s' = cwd s
         | Some d \<Rightarrow> os_chdir fs d p = Some (cwd s')))"

subsection \<open>\<^verbatim>\<open>tui.init\<close>\<close>

text \<open>
  The calls of \<^verbatim>\<open>init\<close> into the widget toolkit and the display coroutine either
  return or raise; which, is a parameter. \<open>setup_raises\<close> stands for the statements
  before \<^verbatim>\<open>launched = True\<close> (lines 27 to 43: the debug bar, \<^verbatim>\<open>MainLoop\<close>, clearing the
  screen, the terminal properties, creating the displayer, the log line),
  \<open>first_display_raises\<close> for \<^verbatim>\<open>next(main.displayer)\<close> (line 46), \<open>loop_raises\<close> for
  \<^verbatim>\<open>main.loop.run()\<close> (line 48) and \<open>exit_log_raises\<close> for the log line after it
  (line 49).
\<close>

record tui_world =
  setup_raises :: bool
  first_display_raises :: bool
  loop_raises :: bool
  exit_log_raises :: bool

text \<open>
  What \<^verbatim>\<open>init\<close> leaves behind: whether it raised, the module's \<^verbatim>\<open>launched\<close> flag
  afterwards, and the flag as the event loop saw it (\<open>None\<close> when the loop never ran).
\<close>

record tui_result =
  raised :: bool
  launched :: bool
  launched_in_loop :: "bool option"

text \<open>
  \<^verbatim>\<open>init\<close> from the value \<open>launched0\<close> of the flag. An error before line 44 leaves the
  flag as it was. Line 44 sets it. Line 46 is not inside the \<^verbatim>\<open>try\<close>: an error there
  leaves the flag set. From line 47 on, the \<^verbatim>\<open>finally\<close> clause clears the flag however
  the \<^verbatim>\<open>try\<close> block ends.
\<close>

definition init :: "tui_world \<Rightarrow> bool \<Rightarrow> tui_result" where
  "init w launched0 =
     (if setup_raises w then
        \<lparr>raised = True, launched = launched0, launched_in_loop = None\<rparr>
      else if first_display_raises w then
        \<lparr>raised = True, launched = True, launched_in_loop = None\<rparr>
      else if loop_raises w then
        \<lparr>raised = True, launched = False, launched_in_loop = Some True\<rparr>
      else if exit_log_raises w then
        \<lparr>raised = True, launched = False, launched_in_loop = Some True\<rparr>
      else
        \<lparr>raised = False, launched = False, launched_in_loop = Some True\<rparr>)"

subsection \<open>\<^verbatim>\<open>main\<close>: resolving the sources and choosing the output mode\<close>

text \<open>
  Modelled from the spec: the module \<^verbatim>\<open>exit_codes\<close> is not among the sources; the
  spec gives \<^verbatim>\<open>SUCCESS = 0\<close>, \<^verbatim>\<open>FAILURE = 1\<close>, \<^verbatim>\<open>INVALID_SIZE = 2\<close>,
  \<^verbatim>\<open>NO_VALID_SOURCE = 3\<close>.
\<close>

definition SUCCESS :: nat where "SUCCESS = 0"
definition FAILURE :: nat where "FAILURE = 1"
definition INVALID_SIZE :: nat where "INVALID_SIZE = 2"
definition NO_VALID_SOURCE :: nat where "NO_VALID_SOURCE = 3"

text \<open>
  The second component of an element of \<^verbatim>\<open>images\<close>: an \<^verbatim>\<open>Image\<close> widget for a file or
  a URL, the generator \<^verbatim>\<open>scan_dir(...)\<close> for a directory.
\<close>

datatype widget = Image string | ScanDir string tree

fun is_Image :: "widget \<Rightarrow> bool" where
  "is_Image (Image src) = True"
| "is_Image (ScanDir src t) = False"

datatype url_result =
  UrlImage | UrlConnectionError | UrlNotFound | UrlUnidentified | UrlRaisesOther

datatype file_result = FileImage | FileUnidentified | FileOSError | FileRaisesOther

datatype draw_result = Drawn | RaisesInvalidSize | RaisesValueError | RaisesOther

text \<open>
  The library calls of \<^verbatim>\<open>main\<close>. \<open>draw\<close> stands for the \<^verbatim>\<open>try\<close> block of lines 461
  to 481 (setting width or height, scale and frame duration, then \<^verbatim>\<open>draw_image\<close>)
  under the parsed arguments: it returns, raises \<^verbatim>\<open>InvalidSize\<close>, raises another
  \<^verbatim>\<open>ValueError\<close>, or raises something \<^verbatim>\<open>except ValueError\<close> does not catch.
\<close>

record cli_env =
  urlparse :: "string \<Rightarrow> string \<times> string \<times> string"
  from_url :: "string \<Rightarrow> url_result"
  from_file :: "string \<Rightarrow> file_result"
  basename :: "string \<Rightarrow> string"
  abspath :: "string \<Rightarrow> string \<Rightarrow> string"
  draw :: "string \<Rightarrow> draw_result"
  tui :: tui_world

text \<open>What \<^verbatim>\<open>main\<close> did, in order: one event per source, then the output mode.\<close>

datatype event =
    FetchURL string
  | OpenFile string
  | ScanDirectory string
  | InvalidSource string
  | DrawDirect string
  | HandToTUI "(string \<times> widget) list" content

record run =
  images :: "(string \<times> widget) list"
  contents :: content
  events :: "event list"
  st :: state

text \<open>\<^verbatim>\<open>all(urlparse(source)[:3])\<close>: scheme, host and path are all non-empty.\<close>

definition complete_url :: "string \<times> string \<times> string \<Rightarrow> bool" where
  "complete_url parts =
     (case parts of
        (scheme, netloc, path) \<Rightarrow> scheme \<noteq> [] \<and> netloc \<noteq> [] \<and> path \<noteq> [])"

definition is_url :: "cli_env \<Rightarrow> string \<Rightarrow> bool" where
  "is_url env source = complete_url (urlparse env source)"

text \<open>
  One round of the loop over \<^verbatim>\<open>args.sources\<close> (lines 398 to 448). The exception, if
  any, is one the source does not catch; \<^verbatim>\<open>depth\<close> is the number of frames left for
  \<^verbatim>\<open>check_dir\<close>.
\<close>

definition resolve_source ::
  "fsys \<Rightarrow> cli_env \<Rightarrow> bool \<Rightarrow> bool \<Rightarrow> nat \<Rightarrow> run \<Rightarrow> string \<Rightarrow> exn option \<times> run" where
  "resolve_source fs env recursive show_hidden depth run source =
     (if is_url env source then
        (let run1 = run\<lparr>events := events run @ [FetchURL source]\<rparr> in
         case from_url env source of
           UrlImage \<Rightarrow>
             (None, run1\<lparr>images := images run1 @ [(basename env source, Image source)]\<rparr>)
         | UrlConnectionError \<Rightarrow> (None, run1)
         | UrlNotFound \<Rightarrow> (None, run1)
         | UrlUnidentified \<Rightarrow> (None, run1)
         | UrlRaisesOther \<Rightarrow> (Some OtherError, run1))
      else if isfile fs (cwd (st run)) source then
        (let run1 = run\<lparr>events := events run @ [OpenFile source]\<rparr> in
         case from_file env source of
           FileImage \<Rightarrow> (None, run1\<lparr>images := images run1 @ [(source, Image source)]\<rparr>)
         | FileUnidentified \<Rightarrow> (None, run1)
         | FileOSError \<Rightarrow> (None, run1)
         | FileRaisesOther \<Rightarrow> (Some OtherError, run1))
      else if isdir fs (cwd (st run)) source then
        (let run1 = run\<lparr>events := events run @ [ScanDirectory source]\<rparr> in
         case check_dir fs recursive show_hidden depth (st run1) source (cwd (st run1)) of
           (Inl e, s') \<Rightarrow> (Some e, run1\<lparr>st := s'\<rparr>)
         | (Inr None, s') \<Rightarrow> (None, run1\<lparr>st := s'\<rparr>)
         | (Inr (Some t), s') \<Rightarrow>
             (let name = abspath env (cwd s') source in
              (None, run1\<lparr>st := s',
                 contents := AList.update name t (contents run1),
                 images := images run1 @ [(name, ScanDir name t)]\<rparr>)))
      else (None, run\<lparr>events := events run @ [InvalidSource source]\<rparr>))"

fun resolve_sources ::
  "fsys \<Rightarrow> cli_env \<Rightarrow> bool \<Rightarrow> bool \<Rightarrow> nat \<Rightarrow> run \<Rightarrow> string list \<Rightarrow> exn option \<times> run" where
  "resolve_sources fs env recursive show_hidden depth run [] = (None, run)"
| "resolve_sources fs env recursive show_hidden depth run (source # sources) =
     (case resolve_source fs env recursive show_hidden depth run source of
        (Some e, run') \<Rightarrow> (Some e, run')
      | (None, run') \<Rightarrow> resolve_sources fs env recursive show_hidden depth run' sources)"

text \<open>Lines 450 to 492: the choice of the output mode and the exit code.\<close>

definition output_mode :: "cli_env \<Rightarrow> run \<Rightarrow> (exn + nat) \<times> run" where
  "output_mode env run =
     (if images run = [] then (Inr NO_VALID_SOURCE, run)
      else if length (images run) = 1 \<and> is_Image (snd (hd (images run))) then
        (let run1 = run\<lparr>events := events run @ [DrawDirect (fst (hd (images run)))]\<rparr> in
         case draw env (fst (hd (images run))) of
           Drawn \<Rightarrow> (Inr SUCCESS, run1)
         | RaisesInvalidSize \<Rightarrow> (Inr INVALID_SIZE, run1)
         | RaisesValueError \<Rightarrow> (Inr FAILURE, run1)
         | RaisesOther \<Rightarrow> (Inl OtherError, run1))
      else
        (let run1 = run\<lparr>events := events run @ [HandToTUI (images run) (contents run)]\<rparr> in
         if raised (init (tui env) False) then (Inl OtherError, run1)
         else (Inr SUCCESS, run1)))"

definition start :: "state \<Rightarrow> run" where
  "start s = \<lparr>images = [], contents = [], events = [], st = s\<rparr>"

definition main ::
  "fsys \<Rightarrow> cli_env \<Rightarrow> bool \<Rightarrow> bool \<Rightarrow> nat \<Rightarrow> state \<Rightarrow> string list \<Rightarrow> (exn + nat) \<times> run" where
  "main fs env recursive show_hidden depth s sources =
     (case resolve_sources fs env recursive show_hidden depth (start s) sources of
        (Some e, run) \<Rightarrow> (Inl e, run)
      | (None, run) \<Rightarrow> output_mode env run)"


subsection \<open>Constructing an image from a URL\<close>

text \<open>
  Modelled from the spec: \<^verbatim>\<open>TermImage.from_url\<close> lives in the module \<^verbatim>\<open>image\<close>, which
  is not among the sources (only its test \<^verbatim>\<open>test_from_url\<close> is). The spec: the URL is
  validated syntactically first (scheme, host and path all present, the check
  \<^verbatim>\<open>main\<close> makes too); then an HTTP GET is performed; a 404 response raises the
  not-found error; bytes that do not decode raise the codec error; a connection
  failure propagates as such. \<open>requests\<close> lists the URLs fetched.
\<close>

datatype http_response = ConnectionFailed | Response nat string

datatype url_error =
  InvalidURL | URLNotFoundError | ConnectionError | UnidentifiedImageError

record net =
  http_get :: "string \<Rightarrow> http_response"
  decodes :: "string \<Rightarrow> bool"

definition TermImage_from_url ::
  "(string \<Rightarrow> string \<times> string \<times> string) \<Rightarrow> net \<Rightarrow> string \<Rightarrow>
   (url_error + string) \<times> string list" where
  "TermImage_from_url parse nw url =
     (if \<not> complete_url (parse url) then (Inl InvalidURL, [])
      else
        (case http_get nw url of
           ConnectionFailed \<Rightarrow> (Inl ConnectionError, [url])
         | Response status body \<Rightarrow>
             (if status = 404 then (Inl URLNotFoundError, [url])
              else if \<not> decodes nw body then (Inl UnidentifiedImageError, [url])
              else (Inr url, [url]))))"

subsection \<open>The animation iterator\<close>

text \<open>
  Modelled from the spec: \<^verbatim>\<open>ImageIterator\<close> lives in the module \<^verbatim>\<open>image\<close>, which is
  not among the sources (only its test \<^verbatim>\<open>test_image_iterator.py\<close> is). The spec: the
  image must have more than one frame and the repeat count must not be zero; each
  step seeks the image to the next frame, wrapping to frame 0 at the start of each
  further pass, and returns the rendering; after the last frame of the last pass the
  step signals exhaustion, resets the frame pointer to 0 and releases the iteration
  resources; from then on every step signals exhaustion. A negative repeat count
  never runs out. The rendering of a frame is stood for by the frame's index.
\<close>

record iterator =
  n_frames :: nat
  repeat_left :: int
  next_frame :: nat
  frame_ptr :: nat
  released :: bool

datatype iterator_error = NotAnimated | ZeroRepeat

datatype step = Rendered nat | StopIteration

definition ImageIterator :: "nat \<Rightarrow> nat \<Rightarrow> int \<Rightarrow> iterator_error + iterator" where
  "ImageIterator frames at_frame repeat =
     (if frames \<le> 1 then Inl NotAnimated
      else if repeat = 0 then Inl ZeroRepeat
      else Inr \<lparr>n_frames = frames, repeat_left = repeat, next_frame = 0,
                frame_ptr = at_frame, released = False\<rparr>)"

definition next_step :: "iterator \<Rightarrow> step \<times> iterator" where
  "next_step it =
     (if released it then (StopIteration, it)
      else if repeat_left it = 0 then
        (StopIteration, it\<lparr>frame_ptr := 0, released := True\<rparr>)
      else if Suc (next_frame it) = n_frames it then
        (Rendered (next_frame it),
         it\<lparr>frame_ptr := next_frame it, next_frame := 0,
            repeat_left := repeat_left it - 1\<rparr>)
      else
        (Rendered (next_frame it),
         it\<lparr>frame_ptr := next_frame it, next_frame := Suc (next_frame it)\<rparr>))"

text \<open>\<open>steps n\<close>: the results of \<open>n\<close> calls of \<^verbatim>\<open>next\<close> in a row, and the iterator after them.\<close>

fun steps :: "nat \<Rightarrow> iterator \<Rightarrow> step list \<times> iterator" where
  "steps 0 it = ([], it)"
| "steps (Suc n) it =
     (case next_step it of
        (x, it') \<Rightarrow> (case steps n it' of (xs, it'') \<Rightarrow> (x # xs, it'')))"

fun is_Rendered :: "step \<Rightarrow> bool" where
  "is_Rendered (Rendered k) = True"
| "is_Rendered StopIteration = False"

text \<open>
  An iterator in the middle of its passes: not released, over \<open>F\<close> frames, about to
  render frame \<open>n\<close>, with \<open>r\<close> passes still to finish.
\<close>

definition running :: "iterator \<Rightarrow> nat \<Rightarrow> nat \<Rightarrow> nat \<Rightarrow> bool" where
  "running it F n r =
     (\<not> released it \<and> n_frames it = F \<and> next_frame it = n \<and> repeat_left it = int r)"

subsection \<open>Concrete file systems\<close>

text \<open>
  In both file systems below every helper needs one frame.

  Three nested directories: \<^verbatim>\<open>/top\<close> holds \<^verbatim>\<open>a\<close> and the image \<^verbatim>\<open>z.png\<close>, \<^verbatim>\<open>/top/a\<close>
  holds \<^verbatim>\<open>b\<close> and the image \<^verbatim>\<open>y.png\<close>, \<^verbatim>\<open>/top/a/b\<close> holds the image \<^verbatim>\<open>c.png\<close>. No
  links; \<^verbatim>\<open>os.listdir\<close> gives the directory before the image.
\<close>

definition nested_parent :: "string \<Rightarrow> string option" where
  "nested_parent c =
     (if c = ''/'' then Some ''/''
      else if c = ''/top'' then Some ''/''
      else if c = ''/top/a'' then Some ''/top''
      else if c = ''/top/a/b'' then Some ''/top/a''
      else None)"

definition nested_chdir :: "string \<Rightarrow> string \<Rightarrow> string option" where
  "nested_chdir c p =
     (if p = ''..'' then nested_parent c
      else if p = ''/'' \<or> p = ''/top'' \<or> p = ''/top/a'' \<or> p = ''/top/a/b'' then Some p
      else if c = ''/'' \<and> p = ''top'' then Some ''/top''
      else if c = ''/top'' \<and> p = ''a'' then Some ''/top/a''
      else if c = ''/top/a'' \<and> p = ''b'' then Some ''/top/a/b''
      else None)"

definition nested_listdir :: "string \<Rightarrow> string list option" where
  "nested_listdir c =
     (if c = ''/'' then Some [''top'']
      else if c = ''/top'' then Some [''a'', ''z.png'']
      else if c = ''/top/a'' then Some [''b'', ''y.png'']
      else if c = ''/top/a/b'' then Some [''c.png'']
      else None)"

definition nested_isfile :: "string \<Rightarrow> string \<Rightarrow> bool" where
  "nested_isfile c e =
     ((c = ''/top'' \<and> e = ''z.png'') \<or> (c = ''/top/a'' \<and> e = ''y.png'')
      \<or> (c = ''/top/a/b'' \<and> e = ''c.png''))"

definition nested_isdir :: "string \<Rightarrow> string \<Rightarrow> bool" where
  "nested_isdir c e =
     ((c = ''/'' \<and> e = ''top'') \<or> (c = ''/top'' \<and> e = ''a'')
      \<or> (c = ''/top/a'' \<and> e = ''b''))"

definition nested_fs :: fsys where
  "nested_fs =
     \<lparr>os_chdir = nested_chdir, os_listdir = nested_listdir, isfile = nested_isfile,
      islink = (\<lambda>c e. False), isdir = nested_isdir,
      path_exists = (\<lambda>c e. nested_isfile c e \<or> nested_isdir c e),
      realpath = (\<lambda>c e. if c = ''/'' then c @ e else c @ ''/'' @ e),
      pil_open = nested_isfile, need = (\<lambda>h. 1)\<rparr>"

text \<open>
  Two directories that link to each other, and one link to its own directory:
  \<^verbatim>\<open>/D\<close> holds \<^verbatim>\<open>A\<close>, \<^verbatim>\<open>B\<close> and the link \<^verbatim>\<open>self\<close> to \<^verbatim>\<open>/D\<close>; \<^verbatim>\<open>/D/A\<close> holds the image
  \<^verbatim>\<open>x.png\<close> and the link \<^verbatim>\<open>l\<close> to \<^verbatim>\<open>/D/B\<close>; \<^verbatim>\<open>/D/B\<close> holds the link \<^verbatim>\<open>m\<close> to \<^verbatim>\<open>/D/A\<close>.
\<close>

definition linked_chdir :: "string \<Rightarrow> string \<Rightarrow> string option" where
  "linked_chdir c p =
     (if p = ''..'' then
        (if c = ''/D/A'' \<or> c = ''/D/B'' then Some ''/D''
         else if c = ''/D'' \<or> c = ''/'' then Some ''/'' else None)
      else if p = ''/'' \<or> p = ''/D'' \<or> p = ''/D/A'' \<or> p = ''/D/B'' then Some p
      else if c = ''/'' \<and> p = ''D'' then Some ''/D''
      else if c = ''/D'' \<and> p = ''A'' then Some ''/D/A''
      else if c = ''/D'' \<and> p = ''B'' then Some ''/D/B''
      else if c = ''/D'' \<and> p = ''self'' then Some ''/D''
      else if c = ''/D/A'' \<and> p = ''l'' then Some ''/D/B''
      else if c = ''/D/B'' \<and> p = ''m'' then Some ''/D/A''
      else None)"

definition linked_listdir :: "string \<Rightarrow> string list option" where
  "linked_listdir c =
     (if c = ''/'' then Some [''D'']
      else if c = ''/D'' then Some [''self'', ''A'', ''B'']
      else if c = ''/D/A'' then Some [''x.png'', ''l'']
      else if c = ''/D/B'' then Some [''m'']
      else None)"

definition linked_islink :: "string \<Rightarrow> string \<Rightarrow> bool" where
  "linked_islink c e =
     ((c = ''/D'' \<and> e = ''self'') \<or> (c = ''/D/A'' \<and> e = ''l'')
      \<or> (c = ''/D/B'' \<and> e = ''m''))"

definition linked_isdir :: "string \<Rightarrow> string \<Rightarrow> bool" where
  "linked_isdir c e =
     (linked_islink c e \<or> (c = ''/'' \<and> e = ''D'')
      \<or> (c = ''/D'' \<and> (e = ''A'' \<or> e = ''B'')))"

definition linked_isfile :: "string \<Rightarrow> string \<Rightarrow> bool" where
  "linked_isfile c e = (c = ''/D/A'' \<and> e = ''x.png'')"

definition linked_realpath :: "string \<Rightarrow> string \<Rightarrow> string" where
  "linked_realpath c e =
     (if c = ''/D'' \<and> e = ''self'' then ''/D''
      else if c = ''/D/A'' \<and> e = ''l'' then ''/D/B''
      else if c = ''/D/B'' \<and> e = ''m'' then ''/D/A''
      else if c = ''/'' then c @ e
      else c @ ''/'' @ e)"

definition linked_fs :: fsys where
  "linked_fs =
     \<lparr>os_chdir = linked_chdir, os_listdir = linked_listdir, isfile = linked_isfile,
      islink = linked_islink, isdir = linked_isdir,
      path_exists = (\<lambda>c e. linked_isfile c e \<or> linked_isdir c e),
      realpath = linked_realpath, pil_open = linked_isfile, need = (\<lambda>h. 1)\<rparr>"

text \<open>The nested directories with files that do not decode.\<close>

definition undecodable_fs :: fsys where
  "undecodable_fs = nested_fs\<lparr>pil_open := (\<lambda>c e. False)\<rparr>"

text \<open>
  A chain of directories deeper than any recursion limit, on a host where the
  helpers need the frames \<open>nd\<close>: every directory holds the directory \<^verbatim>\<open>d\<close> and the
  image \<^verbatim>\<open>y.png\<close>, and \<^verbatim>\<open>os.listdir\<close> gives the directory first. The working directory
  is written as the path below the top of the chain.
\<close>

definition deep_fs :: "(helper \<Rightarrow> nat) \<Rightarrow> fsys" where
  "deep_fs nd =
     \<lparr>os_chdir = (\<lambda>c p. if p = ''d'' then Some (c @ ''/d'')
                         else if p = ''..'' then Some (take (length c - 2) c)
                         else None),
      os_listdir = (\<lambda>c. Some [''d'', ''y.png'']),
      isfile = (\<lambda>c e. e = ''y.png''), islink = (\<lambda>c e. False),
      isdir = (\<lambda>c e. e = ''d''),
      path_exists = (\<lambda>c e. e = ''d'' \<or> e = ''y.png''),
      realpath = (\<lambda>c e. c @ ''/'' @ e),
      pil_open = (\<lambda>c e. e = ''y.png''), need = nd\<rparr>"

text \<open>The initial state of a scan started in the directory \<open>c\<close>.\<close>

definition at :: "string \<Rightarrow> state" where
  "at c = \<lparr>cwd = c, logged = [], probed = []\<rparr>"


text \<open>
  A command line for \<^verbatim>\<open>main\<close>: one string parses as a URL, every fetch and every open
  gives an image, drawing raises \<^verbatim>\<open>InvalidSize\<close>, the TUI runs and returns.
\<close>

definition demo_env :: cli_env where
  "demo_env =
     \<lparr>urlparse = (\<lambda>src. if src = ''http://h/z.png'' then (''http'', ''h'', ''/z.png'')
                         else ([], [], src)),
      from_url = (\<lambda>src. UrlImage), from_file = (\<lambda>src. FileImage),
      basename = (\<lambda>src. src), abspath = (\<lambda>c src. c @ ''/'' @ src),
      draw = (\<lambda>src. RaisesInvalidSize),
      tui = \<lparr>setup_raises = False, first_display_raises = False, loop_raises = False,
             exit_log_raises = False\<rparr>\<rparr>"

text \<open>A network on which every request is answered with status 404.\<close>

definition demo_net :: net where
  "demo_net = \<lparr>http_get = (\<lambda>url. Response 404 []), decodes = (\<lambda>body. False)\<rparr>"

section \<open>The output mode and the order of source classification\<close>


text \<open>
  C1. When the loop over the sources ends with the list \<open>images run\<close>: with no image
  \<^verbatim>\<open>main\<close> returns \<^verbatim>\<open>NO_VALID_SOURCE\<close> (3) and does nothing else; with exactly one
  element that is an \<^verbatim>\<open>Image\<close> the image is drawn directly and the exit code is
  \<^verbatim>\<open>SUCCESS\<close> (0) when drawing returns, \<^verbatim>\<open>INVALID_SIZE\<close> (2) on \<^verbatim>\<open>InvalidSize\<close>,
  \<^verbatim>\<open>FAILURE\<close> (1) on another \<^verbatim>\<open>ValueError\<close>; in every other case (several elements, or
  a directory) the list and the directory trees are handed to \<^verbatim>\<open>tui.init\<close>.
\<close>

theorem output_mode_choice:
  assumes "resolve_sources fs env recursive show_hidden depth (start s) sources = (None, run)"
  shows "(images run = [] \<longrightarrow>
            main fs env recursive show_hidden depth s sources = (Inr NO_VALID_SOURCE, run))
       \<and> (\<forall>name src. images run = [(name, Image src)] \<longrightarrow>
            events (snd (main fs env recursive show_hidden depth s sources)) =
              events run @ [DrawDirect name]
          \<and> (draw env name = Drawn \<longrightarrow>
               fst (main fs env recursive show_hidden depth s sources) = Inr SUCCESS)
          \<and> (draw env name = RaisesInvalidSize \<longrightarrow>
               fst (main fs env recursive show_hidden depth s sources) = Inr INVALID_SIZE)
          \<and> (draw env name = RaisesValueError \<longrightarrow>
               fst (main fs env recursive show_hidden depth s sources) = Inr FAILURE))
       \<and> (images run \<noteq> [] \<and> (\<forall>name src. images run \<noteq> [(name, Image src)]) \<longrightarrow>
            events (snd (main fs env recursive show_hidden depth s sources)) =
              events run @ [HandToTUI (images run) (contents run)])
       \<and> SUCCESS = 0 \<and> FAILURE = 1 \<and> INVALID_SIZE = 2 \<and> NO_VALID_SOURCE = 3"
proof -
  have m: "main fs env recursive show_hidden depth s sources = output_mode env run"
    using assms by (simp add: main_def)
  have none: "images run = [] \<longrightarrow> output_mode env run = (Inr NO_VALID_SOURCE, run)"
    by (simp add: output_mode_def)
  have one: "\<forall>name src. images run = [(name, Image src)] \<longrightarrow>
            events (snd (output_mode env run)) = events run @ [DrawDirect name]
          \<and> (draw env name = Drawn \<longrightarrow> fst (output_mode env run) = Inr SUCCESS)
          \<and> (draw env name = RaisesInvalidSize \<longrightarrow>
               fst (output_mode env run) = Inr INVALID_SIZE)
          \<and> (draw env name = RaisesValueError \<longrightarrow> fst (output_mode env run) = Inr FAILURE)"
    by (auto simp: output_mode_def Let_def split: draw_result.splits)
  have single: "length (images run) = 1 \<and> is_Image (snd (hd (images run)))
      \<Longrightarrow> \<exists>name src. images run = [(name, Image src)]"
    by (cases "images run"; cases "snd (hd (images run))") (auto simp: prod_eq_iff)
  have many: "images run \<noteq> [] \<and> (\<forall>name src. images run \<noteq> [(name, Image src)]) \<longrightarrow>
            events (snd (output_mode env run)) =
              events run @ [HandToTUI (images run) (contents run)]"
    using single by (auto simp: output_mode_def Let_def)
  show ?thesis
    using none one many
    by (simp add: m SUCCESS_def FAILURE_def INVALID_SIZE_def NO_VALID_SOURCE_def)
qed

theorem output_mode_choice_witness:
  "resolve_sources nested_fs demo_env True False 5 (start (at ''/top'')) [''z.png''] =
     (None, \<lparr>images = [(''z.png'', Image ''z.png'')], contents = [],
             events = [OpenFile ''z.png''], st = at ''/top''\<rparr>)
   \<and> events (snd (main nested_fs demo_env True False 5 (at ''/top'') [''z.png''])) =
       [OpenFile ''z.png'', DrawDirect ''z.png'']
   \<and> fst (main nested_fs demo_env True False 5 (at ''/top'') [''z.png'']) = Inr 2"
proof -
  have r: "resolve_sources nested_fs demo_env True False 5 (start (at ''/top'')) [''z.png''] =
     (None, \<lparr>images = [(''z.png'', Image ''z.png'')], contents = [],
             events = [OpenFile ''z.png''], st = at ''/top''\<rparr>)"
    by (simp add: resolve_source_def is_url_def complete_url_def demo_env_def nested_fs_def nested_isfile_def
        at_def start_def)
  have d: "draw demo_env ''z.png'' = RaisesInvalidSize"
    by (simp add: demo_env_def)
  show ?thesis
    using output_mode_choice [OF r] r d by (simp add: INVALID_SIZE_def)
qed


section \<open>The \<^verbatim>\<open>launched\<close> flag\<close>

text \<open>
  Once the event loop has been entered, the flag reads \<open>True\<close> inside the loop and
  \<open>False\<close> after \<^verbatim>\<open>init\<close>, however the loop and the log line after it end: that is the
  \<^verbatim>\<open>try\<close>/\<^verbatim>\<open>finally\<close> of lines 47 to 51.
\<close>

lemma init_after_loop:
  "\<not> setup_raises w \<Longrightarrow> \<not> first_display_raises w \<Longrightarrow>
   launched_in_loop (init w l) = Some True \<and> launched (init w l) = False"
  by (simp add: init_def)

text \<open>
  C9. The flag is meant to read \<open>False\<close> after every exit of the TUI. The first
  advance of the display coroutine, \<^verbatim>\<open>next(main.displayer)\<close> on line 46, stands
  between \<^verbatim>\<open>launched = True\<close> and the \<^verbatim>\<open>try\<close>: when it raises, \<^verbatim>\<open>init\<close> is left by
  the error with the flag still \<open>True\<close>, and the event loop never ran.
\<close>

theorem init_first_display_error:
  "init \<lparr>setup_raises = False, first_display_raises = True, loop_raises = False,
         exit_log_raises = False\<rparr> False =
     \<lparr>raised = True, launched = True, launched_in_loop = None\<rparr>"
  by (simp add: init_def)

section \<open>Images from URLs\<close>

text \<open>
  C7. A URL that lacks scheme, host or path is rejected with the local value error
  and no request is made; a complete URL answered with status 404 raises the
  not-found error, which is not the connection error; a complete URL whose body
  does not decode raises the codec error.
\<close>

theorem from_url_validation:
  "(\<not> complete_url (parse url) \<longrightarrow>
      TermImage_from_url parse nw url = (Inl InvalidURL, []))
   \<and> (complete_url (parse url) \<and> http_get nw url = Response 404 body \<longrightarrow>
        TermImage_from_url parse nw url = (Inl URLNotFoundError, [url])
        \<and> URLNotFoundError \<noteq> ConnectionError)
   \<and> (complete_url (parse url) \<and> http_get nw url = Response status body
        \<and> status \<noteq> 404 \<and> \<not> decodes nw body \<longrightarrow>
        TermImage_from_url parse nw url = (Inl UnidentifiedImageError, [url]))"
  by (simp add: TermImage_from_url_def)

theorem from_url_validation_witness:
  "\<not> complete_url (urlparse demo_env ''tests/images/python.png'')
   \<and> TermImage_from_url (urlparse demo_env) demo_net ''tests/images/python.png'' =
       (Inl InvalidURL, [])
   \<and> complete_url (urlparse demo_env ''http://h/z.png'')
   \<and> TermImage_from_url (urlparse demo_env) demo_net ''http://h/z.png'' =
       (Inl URLNotFoundError, [''http://h/z.png''])"
proof -
  have a: "\<not> complete_url (urlparse demo_env ''tests/images/python.png'')"
    by (simp add: complete_url_def demo_env_def)
  have b: "complete_url (urlparse demo_env ''http://h/z.png'')"
    by (simp add: complete_url_def demo_env_def)
  have c: "http_get demo_net ''http://h/z.png'' = Response 404 []"
    by (simp add: demo_net_def)
  show ?thesis
    using a b c
      from_url_validation [of "urlparse demo_env" "''tests/images/python.png''" demo_net]
      from_url_validation [of "urlparse demo_env" "''http://h/z.png''" demo_net "[]"]
    by simp
qed

section \<open>The animation iterator runs out and stays so\<close>

lemma steps_add:
  "steps (a + b) it =
     (case steps a it of (xs, it') \<Rightarrow> (case steps b it' of (ys, it'') \<Rightarrow> (xs @ ys, it'')))"
  by (induction a arbitrary: it) (auto split: prod.splits)

lemma steps_length: "length (fst (steps n it)) = n"
  by (induction n arbitrary: it) (simp_all add: split_beta)

text \<open>From frame \<open>n\<close> the rest of the pass is rendered, and one pass fewer remains.\<close>

lemma one_pass:
  "running it F n (Suc r) \<Longrightarrow> n < F \<Longrightarrow>
   list_all is_Rendered (fst (steps (F - n) it)) \<and> running (snd (steps (F - n) it)) F 0 r"
proof (induction "F - n" arbitrary: it n)
  case 0
  then show ?case by simp
next
  case (Suc k)
  then have st: "F - n = Suc k" by simp
  show ?case
  proof (cases "Suc n = F")
    case True
    then have k: "k = 0" using st by simp
    show ?thesis
      using Suc.prems True by (simp add: st k running_def next_step_def)
  next
    case False
    then have lt: "Suc n < F" using Suc.prems by simp
    have k: "k = F - Suc n" using st by simp
    obtain x it' where ns: "next_step it = (x, it')" by (cases "next_step it")
    have r': "running it' F (Suc n) (Suc r)" and x: "is_Rendered x"
      using Suc.prems False ns by (auto simp: running_def next_step_def)
    from Suc.hyps(1) [OF k r' lt] show ?thesis
      using x ns k by (auto simp: st split: prod.splits)
  qed
qed

lemma all_passes:
  "running it F 0 r \<Longrightarrow> 0 < F \<Longrightarrow>
   list_all is_Rendered (fst (steps (F * r) it)) \<and> running (snd (steps (F * r) it)) F 0 0"
proof (induction r arbitrary: it)
  case 0
  then show ?case by simp
next
  case (Suc r)
  from one_pass [OF Suc.prems(1) Suc.prems(2)]
  have p: "list_all is_Rendered (fst (steps F it))" "running (snd (steps F it)) F 0 r"
    by simp_all
  from Suc.IH [OF p(2) Suc.prems(2)]
  have q: "list_all is_Rendered (fst (steps (F * r) (snd (steps F it))))"
          "running (snd (steps (F * r) (snd (steps F it)))) F 0 0" by simp_all
  have "F * Suc r = F + F * r" by simp
  then show ?case using p q by (auto simp: steps_add split: prod.splits)
qed

lemma released_sticky:
  "released it \<Longrightarrow> steps k it = (replicate k StopIteration, it)"
  by (induction k) (auto simp: next_step_def)

text \<open>
  C6. For an iterator over \<open>F\<close> frames with repeat count \<open>R \<ge> 1\<close>: the first \<open>F * R\<close>
  steps all render a frame; the step after them signals exhaustion, leaves the
  image's frame pointer at 0 and the iterator released; and any number \<open>k\<close> of further
  steps all signal exhaustion and change nothing.
\<close>

theorem iterator_exhaustion:
  assumes "ImageIterator F p R = Inr it0" and "1 \<le> R"
  shows "list_all is_Rendered (fst (steps (F * nat R) it0))
       \<and> length (fst (steps (F * nat R) it0)) = F * nat R
       \<and> fst (next_step (snd (steps (F * nat R) it0))) = StopIteration
       \<and> frame_ptr (snd (next_step (snd (steps (F * nat R) it0)))) = 0
       \<and> released (snd (next_step (snd (steps (F * nat R) it0))))
       \<and> steps k (snd (next_step (snd (steps (F * nat R) it0)))) =
           (replicate k StopIteration, snd (next_step (snd (steps (F * nat R) it0))))"
proof -
  have F: "1 < F"
    and it0: "it0 = \<lparr>n_frames = F, repeat_left = R, next_frame = 0, frame_ptr = p,
                     released = False\<rparr>"
    using assms(1) by (auto simp: ImageIterator_def split: if_splits)
  have run0: "running it0 F 0 (nat R)"
    using assms(2) by (simp add: it0 running_def)
  define it1 where "it1 = snd (steps (F * nat R) it0)"
  have a: "list_all is_Rendered (fst (steps (F * nat R) it0))" and b: "running it1 F 0 0"
    using all_passes [OF run0] F by (simp_all add: it1_def)
  have c: "next_step it1 = (StopIteration, it1\<lparr>frame_ptr := 0, released := True\<rparr>)"
    using b by (simp add: running_def next_step_def)
  show ?thesis
    using a c steps_length released_sticky [of "it1\<lparr>frame_ptr := 0, released := True\<rparr>" k]
    by (simp add: it1_def [symmetric])
qed

theorem iterator_exhaustion_witness:
  "ImageIterator 3 2 2 =
     Inr \<lparr>n_frames = 3, repeat_left = 2, next_frame = 0, frame_ptr = 2, released = False\<rparr>
   \<and> fst (steps (3 * nat 2)
        \<lparr>n_frames = 3, repeat_left = 2, next_frame = 0, frame_ptr = 2, released = False\<rparr>) =
       [Rendered 0, Rendered 1, Rendered 2, Rendered 0, Rendered 1, Rendered 2]
   \<and> fst (steps 9
        \<lparr>n_frames = 3, repeat_left = 2, next_frame = 0, frame_ptr = 2, released = False\<rparr>) =
       [Rendered 0, Rendered 1, Rendered 2, Rendered 0, Rendered 1, Rendered 2,
        StopIteration, StopIteration, StopIteration]
   \<and> frame_ptr (snd (next_step (snd (steps (3 * nat 2)
        \<lparr>n_frames = 3, repeat_left = 2, next_frame = 0, frame_ptr = 2,
          released = False\<rparr>)))) = 0"
proof -
  have i: "ImageIterator 3 2 2 =
     Inr \<lparr>n_frames = 3, repeat_left = 2, next_frame = 0, frame_ptr = 2, released = False\<rparr>"
    by (simp add: ImageIterator_def)
  have s6: "fst (steps (3 * nat 2)
        \<lparr>n_frames = 3, repeat_left = 2, next_frame = 0, frame_ptr = 2, released = False\<rparr>) =
       [Rendered 0, Rendered 1, Rendered 2, Rendered 0, Rendered 1, Rendered 2]"
    by code_simp
  have s9: "fst (steps 9
        \<lparr>n_frames = 3, repeat_left = 2, next_frame = 0, frame_ptr = 2, released = False\<rparr>) =
       [Rendered 0, Rendered 1, Rendered 2, Rendered 0, Rendered 1, Rendered 2,
        StopIteration, StopIteration, StopIteration]"
    by code_simp
  show ?thesis
    using iterator_exhaustion [OF i, of 0] i s6 s9 by simp
qed

section \<open>Directory scans\<close>

subsection \<open>The log of a scan\<close>

text \<open>The log only grows during a scan.\<close>

lemma check_entries_log:
  assumes "\<forall>s d p res s'. call s d p = (res, s') \<longrightarrow> prefix (logged s) (logged s')"
  shows "check_entries fs rc sh r call es e c s = (res, s') \<Longrightarrow> prefix (logged s) (logged s')"
proof (induction es arbitrary: e c s)
  case Nil
  then show ?case by auto
next
  case (Cons entry es)
  obtain res1 s1 where se: "scan_entry fs r call s entry = (res1, s1)"
    by (cases "scan_entry fs r call s entry")
  have p1: "prefix (logged s) (logged s1)"
    using assms se by (auto simp: scan_entry_def split: if_splits)
  have ih1: "check_entries fs rc sh r call es e' c' s1 = (res, s') \<Longrightarrow>
             prefix (logged s) (logged s')" for e' c'
    using Cons.IH [where s = s1] p1 prefix_order.trans by blast
  have ih0: "check_entries fs rc sh r call es e' c' (s\<lparr>probed := pr\<rparr>) = (res, s') \<Longrightarrow>
             prefix (logged s) (logged s')" for e' c' pr
    using Cons.IH [where s = "s\<lparr>probed := pr\<rparr>"] by simp
  show ?case
    using Cons.prems Cons.IH [where s = s] se p1 ih1 ih0
    by (auto split: if_splits sum.splits exn.splits option.splits)
qed

lemma check_dir_log:
  "check_dir fs rc sh b s dir prev = (res, s') \<Longrightarrow> prefix (logged s) (logged s')"
proof (induction b arbitrary: s dir prev res s')
  case 0
  then show ?case by auto
next
  case (Suc r)
  have call: "\<forall>s d p res s'. check_dir fs rc sh r s d p = (res, s') \<longrightarrow>
      prefix (logged s) (logged s')"
    using Suc.IH by blast
  have l: "check_entries fs rc sh r (check_dir fs rc sh r) es True [] (s\<lparr>cwd := d\<rparr>) = (lres, s1)
      \<Longrightarrow> prefix (logged s) (logged s1)" for es d lres s1
    using check_entries_log [where call = "check_dir fs rc sh r", OF call,
        of fs rc sh r es True "[]" "s\<lparr>cwd := d\<rparr>" lres s1] by simp
  show ?case
    using Suc.prems l
    by (auto split: option.splits prod.splits sum.splits if_splits)
qed

lemma too_deep_mono: "prefix (logged s) (logged s') \<Longrightarrow> too_deep s \<Longrightarrow> too_deep s'"
  by (auto simp: too_deep_def prefix_def)

lemma too_deep_simps [simp]:
  "too_deep (s\<lparr>logged := logged s @ [TooDeep c]\<rparr>)"
  "too_deep (s\<lparr>cwd := d\<rparr>) = too_deep s"
  by (simp_all add: too_deep_def)

subsection \<open>Recursion-depth errors\<close>

text \<open>
  A call that has the frames for \<^verbatim>\<open>os.path.isfile\<close> and for the logger of the handler
  of \<^verbatim>\<open>RecursionError\<close> lets no \<^verbatim>\<open>RecursionError\<close> out of its loop, whatever the
  recursive calls do.
\<close>

lemma check_entries_no_recursion_error:
  "need fs Isfile \<le> r \<Longrightarrow> need fs Log \<le> r \<Longrightarrow>
   check_entries fs rc sh r call es e c s \<noteq> (Inl RecursionError, s')"
  by (induction es arbitrary: e c s)
     (auto split: prod.splits sum.splits exn.splits option.splits)

lemma check_dir_no_recursion_error:
  assumes "need fs Isfile \<le> r" and "need fs Log \<le> r"
    and "need fs Abspath \<le> r" and "need fs LogException \<le> r"
  shows "fst (check_dir fs rc sh (Suc r) s dir prev) \<noteq> Inl RecursionError"
  using check_entries_no_recursion_error [OF assms(1,2), of rc sh] assms(3,4)
  by (auto split: option.splits prod.splits sum.splits)

text \<open>
  In the chain of directories \<open>deep_fs nd\<close>, whatever the frames \<open>nd\<close> the helpers
  need: a scan of \<^verbatim>\<open>d\<close> that has no more frames than the larger of what the logger and
  \<^verbatim>\<open>os.path.isfile\<close> need raises \<^verbatim>\<open>RecursionError\<close>, having logged nothing and opened
  no file; the scan with one frame more catches the error, logs it and returns
  \<^verbatim>\<open>None\<close> without having opened \<^verbatim>\<open>y.png\<close>.
\<close>

lemma deep_entry_raises:
  assumes "\<forall>s p. \<exists>s'. call s ''d'' p = (Inl RecursionError, s') \<and> probed s' = probed s
      \<and> logged s' = logged s"
  shows "\<exists>s2. scan_entry (deep_fs nd) r call sa ''d'' = (Inl RecursionError, s2)
      \<and> probed s2 = probed sa \<and> logged s2 = logged sa"
  using assms [rule_format, of sa "''..''"] by (auto simp: scan_entry_def deep_fs_def)

lemma deep_scan_raises:
  "b \<le> max (nd Log) (nd Isfile) \<Longrightarrow>
   \<exists>s'. check_dir (deep_fs nd) True sh b s ''d'' p = (Inl RecursionError, s')
     \<and> probed s' = probed s \<and> logged s' = logged s"
proof (induction b arbitrary: s p)
  case 0
  then show ?case by simp
next
  case (Suc r)
  let ?fs = "deep_fs nd"
  let ?s1 = "s\<lparr>cwd := cwd s @ ''/d''\<rparr>"
  have call: "\<forall>s p. \<exists>s'. check_dir ?fs True sh r s ''d'' p = (Inl RecursionError, s')
      \<and> probed s' = probed s \<and> logged s' = logged s"
    using Suc.IH Suc.prems by simp
  from deep_entry_raises [where call = "check_dir ?fs True sh r" and nd = nd and r = r
      and sa = ?s1, OF call]
  obtain s2 where se: "scan_entry ?fs r (check_dir ?fs True sh r) ?s1 ''d'' =
      (Inl RecursionError, s2)" and s2: "probed s2 = probed s" "logged s2 = logged s"
    by auto
  have fs: "os_chdir ?fs (cwd s) ''d'' = Some (cwd s @ ''/d'')"
    "os_listdir ?fs (cwd s @ ''/d'') = Some [''d'', ''y.png'']"
    "\<not> isfile ?fs (cwd s @ ''/d'') ''d''" "need ?fs = nd" "\<not> hidden ''d''"
    by (simp_all add: deep_fs_def hidden_def)
  have loop: "\<exists>s'. check_entries ?fs True sh r (check_dir ?fs True sh r) [''d'', ''y.png'']
      True [] ?s1 = (Inl RecursionError, s') \<and> probed s' = probed s \<and> logged s' = logged s"
  proof (cases "r < nd Isfile")
    case True
    then show ?thesis by (simp add: fs)
  next
    case False
    then have "r < nd Log" using Suc.prems by simp
    then show ?thesis using False se s2 by (simp add: fs)
  qed
  then obtain s' where l: "check_entries ?fs True sh r (check_dir ?fs True sh r)
      [''d'', ''y.png''] True [] ?s1 = (Inl RecursionError, s')"
    and s': "probed s' = probed s" "logged s' = logged s"
    by auto
  show ?case using l s' by (simp add: fs del: check_entries.simps)
qed

lemma deep_scan_cut:
  "\<exists>s'. check_dir (deep_fs nd) True sh (Suc (max (nd Log) (nd Isfile))) s ''d'' ''..'' =
      (Inr None, s') \<and> probed s' = probed s \<and> too_deep s'"
proof -
  let ?fs = "deep_fs nd"
  let ?m = "max (nd Log) (nd Isfile)"
  let ?s1 = "s\<lparr>cwd := cwd s @ ''/d''\<rparr>"
  have call: "\<forall>s p. \<exists>s'. check_dir ?fs True sh ?m s ''d'' p = (Inl RecursionError, s')
      \<and> probed s' = probed s \<and> logged s' = logged s"
    using deep_scan_raises [of ?m nd sh] by simp
  from deep_entry_raises [where call = "check_dir ?fs True sh ?m" and nd = nd and r = ?m
      and sa = ?s1, OF call]
  obtain s2 where se: "scan_entry ?fs ?m (check_dir ?fs True sh ?m) ?s1 ''d'' =
      (Inl RecursionError, s2)" and s2: "probed s2 = probed s" "logged s2 = logged s"
    by auto
  have fs: "os_chdir ?fs (cwd s) ''d'' = Some (cwd s @ ''/d'')"
    "os_listdir ?fs (cwd s @ ''/d'') = Some [''d'', ''y.png'']"
    "\<not> isfile ?fs (cwd s @ ''/d'') ''d''" "need ?fs = nd" "\<not> hidden ''d''"
    "os_chdir ?fs c ''..'' = Some (take (length c - 2) c)" for c
    by (simp_all add: deep_fs_def hidden_def)
  have l: "check_entries ?fs True sh ?m (check_dir ?fs True sh ?m) [''d'', ''y.png'']
      True [] ?s1 = (Inr (True, []), s2\<lparr>logged := logged s2 @ [TooDeep (cwd s2)]\<rparr>)"
    using se by (simp add: fs)
  show ?thesis
    using l s2(1) by (simp add: fs too_deep_def del: check_entries.simps)
qed

text \<open>
  C5, as the code has it. When the scan of an entry raises \<^verbatim>\<open>RecursionError\<close>, the
  error is caught in the call that scans the containing directory. If that call has
  the frames the logger needs, the error is logged and the loop ends there: the
  result is what was collected before the error, whatever entries \<open>es\<close> remain; they
  are not scanned. If it has not, the logger's own \<^verbatim>\<open>RecursionError\<close> leaves the call
  and reaches the enclosing one. A call that has the frames for \<^verbatim>\<open>os.path.isfile\<close>,
  \<^verbatim>\<open>os.path.abspath\<close> and the two loggers lets no \<^verbatim>\<open>RecursionError\<close> out, so the run
  is not aborted.
\<close>

theorem recursion_error_is_caught:
  "(recursive \<and> \<not> (hidden entry \<and> \<not> show_hidden) \<and> need fs Isfile \<le> r
      \<and> \<not> isfile fs (cwd s) entry
      \<and> scan_entry fs r call s entry = (Inl RecursionError, s') \<longrightarrow>
      check_entries fs recursive show_hidden r call (entry # es) is_empty content s =
        (if need fs Log \<le> r then
           (Inr (is_empty, content), s'\<lparr>logged := logged s' @ [TooDeep (cwd s')]\<rparr>)
         else (Inl RecursionError, s')))
   \<and> (need fs Isfile \<le> r \<and> need fs Log \<le> r \<and> need fs Abspath \<le> r
        \<and> need fs LogException \<le> r \<longrightarrow>
        fst (check_dir fs recursive show_hidden (Suc r) s0 dir prev_dir) \<noteq> Inl RecursionError)"
  using check_dir_no_recursion_error [of fs r recursive show_hidden s0 dir prev_dir]
  by auto

theorem recursion_error_is_caught_witness:
  "scan_entry nested_fs 1 (check_dir nested_fs True False 1) (at ''/top/a'') ''b'' =
     (Inl RecursionError, \<lparr>cwd = ''/top/a/b'', logged = [], probed = []\<rparr>)
   \<and> check_entries nested_fs True False 1 (check_dir nested_fs True False 1)
        [''b'', ''y.png''] True [] (at ''/top/a'') =
       (Inr (True, []), \<lparr>cwd = ''/top/a/b'', logged = [TooDeep ''/top/a/b''], probed = []\<rparr>)
   \<and> fst (check_dir nested_fs True False 2 (at ''/top'') ''a'' ''/top'') \<noteq> Inl RecursionError
   \<and> need (deep_fs (\<lambda>h. if h = Log then 5 else 1)) Log = 5
   \<and> scan_entry (deep_fs (\<lambda>h. if h = Log then 5 else 1)) 1
        (check_dir (deep_fs (\<lambda>h. if h = Log then 5 else 1)) True False 1) (at ''/d'') ''d'' =
       (Inl RecursionError, \<lparr>cwd = ''/d/d'', logged = [], probed = []\<rparr>)
   \<and> check_entries (deep_fs (\<lambda>h. if h = Log then 5 else 1)) True False 1
        (check_dir (deep_fs (\<lambda>h. if h = Log then 5 else 1)) True False 1)
        [''d'', ''y.png''] True [] (at ''/d'') =
       (Inl RecursionError, \<lparr>cwd = ''/d/d'', logged = [], probed = []\<rparr>)"
proof -
  let ?fs = "deep_fs (\<lambda>h. if h = Log then 5 else 1)"
  have a: "scan_entry nested_fs 1 (check_dir nested_fs True False 1) (at ''/top/a'') ''b'' =
     (Inl RecursionError, \<lparr>cwd = ''/top/a/b'', logged = [], probed = []\<rparr>)"
    by code_simp
  have b: "\<not> (hidden ''b'' \<and> \<not> False)" "\<not> isfile nested_fs (cwd (at ''/top/a'')) ''b''"
    "need nested_fs Isfile \<le> 1" "need nested_fs Log \<le> 1" "need nested_fs Abspath \<le> 1"
    "need nested_fs LogException \<le> 1"
    by code_simp+
  have c: "scan_entry ?fs 1 (check_dir ?fs True False 1) (at ''/d'') ''d'' =
       (Inl RecursionError, \<lparr>cwd = ''/d/d'', logged = [], probed = []\<rparr>)"
    by code_simp
  have d: "\<not> (hidden ''d'' \<and> \<not> False)" "\<not> isfile ?fs (cwd (at ''/d'')) ''d''"
    "need ?fs Isfile \<le> 1" "\<not> need ?fs Log \<le> 1" "need ?fs Log = 5"
    by code_simp+
  show ?thesis
    using a b c d
      recursion_error_is_caught [where r = 1 and fs = nested_fs and recursive = True
        and show_hidden = False and entry = "''b''" and s = "at ''/top/a''"
        and call = "check_dir nested_fs True False 1"
        and s' = "\<lparr>cwd = ''/top/a/b'', logged = [], probed = []\<rparr>" and es = "[''y.png'']"
        and is_empty = True and content = "[]" and ?s0.0 = "at ''/top''" and dir = "''a''"
        and prev_dir = "''/top''"]
      recursion_error_is_caught [where r = 1 and fs = ?fs and recursive = True
        and show_hidden = False and entry = "''d''" and s = "at ''/d''"
        and call = "check_dir ?fs True False 1"
        and s' = "\<lparr>cwd = ''/d/d'', logged = [], probed = []\<rparr>" and es = "[''y.png'']"
        and is_empty = True and content = "[]"]
    by (simp del: check_dir.simps One_nat_def)
qed

text \<open>
  The claim as stated fails, whatever the frames the helpers need: every directory
  of the chain lists \<^verbatim>\<open>d\<close> and then the image \<^verbatim>\<open>y.png\<close>. Scanning \<^verbatim>\<open>d\<close> from the top with
  one frame more than the larger of what the logger and \<^verbatim>\<open>os.path.isfile\<close> need, the
  scan of the entry \<^verbatim>\<open>d\<close> raises \<^verbatim>\<open>RecursionError\<close>; the error is logged and the scan
  returns without having opened any file: the sibling \<^verbatim>\<open>y.png\<close> is not scanned.
\<close>

theorem siblings_skipped_after_recursion_error:
  "\<forall>nd. os_listdir (deep_fs nd) ''/d'' = Some [''d'', ''y.png'']
     \<and> os_chdir (deep_fs nd) (cwd (at [])) ''d'' = Some ''/d''
     \<and> isfile (deep_fs nd) ''/d'' ''y.png''
     \<and> (\<exists>s'. check_dir (deep_fs nd) True False (Suc (max (nd Log) (nd Isfile))) (at [])
               ''d'' ''..'' = (Inr None, s')
             \<and> too_deep s' \<and> probed s' = [])"
proof
  fix nd
  from deep_scan_cut [of nd False "at []"]
  obtain s' where "check_dir (deep_fs nd) True False (Suc (max (nd Log) (nd Isfile))) (at [])
      ''d'' ''..'' = (Inr None, s')" "probed s' = probed (at [])" "too_deep s'"
    by auto
  then have "\<exists>s'. check_dir (deep_fs nd) True False (Suc (max (nd Log) (nd Isfile))) (at [])
      ''d'' ''..'' = (Inr None, s') \<and> too_deep s' \<and> probed s' = []"
    by (auto simp: at_def)
  then show "os_listdir (deep_fs nd) ''/d'' = Some [''d'', ''y.png'']
     \<and> os_chdir (deep_fs nd) (cwd (at [])) ''d'' = Some ''/d''
     \<and> isfile (deep_fs nd) ''/d'' ''y.png''
     \<and> (\<exists>s'. check_dir (deep_fs nd) True False (Suc (max (nd Log) (nd Isfile))) (at [])
               ''d'' ''..'' = (Inr None, s')
             \<and> too_deep s' \<and> probed s' = [])"
    by (simp add: deep_fs_def at_def)
qed

subsection \<open>Symbolic links\<close>

text \<open>
  A link is scanned only if it resolves to an existing path whose real path is no
  prefix of the working directory, so no ancestor of it and not the directory
  itself; a link that fails the test is passed over and nothing changes, unless one
  of the queries lacks its frames.
\<close>

lemma ancestor_is_prefix: "ancestor_or_self p c \<Longrightarrow> prefix p c"
  by (auto simp: ancestor_or_self_def dest: append_prefixD)

lemma follow_link_only_if:
  "follow_link fs c entry \<Longrightarrow>
   path_exists fs c entry \<and> \<not> ancestor_or_self (realpath fs c entry) c"
  using ancestor_is_prefix by (auto simp: follow_link_def)

lemma link_not_followed:
  "islink fs (cwd s) entry \<Longrightarrow> \<not> follow_link fs (cwd s) entry \<Longrightarrow>
   scan_entry fs r call s entry = (Inr None, s)
   \<or> scan_entry fs r call s entry = (Inl RecursionError, s)"
  by (simp add: scan_entry_def)

text \<open>
  C4. A scan of a tree with cyclic links should end without running into the
  recursion limit and without reporting a branch twice. In the tree \<open>linked_fs\<close> the
  link \<^verbatim>\<open>self\<close> to its own directory is passed over, but the links \<^verbatim>\<open>l\<close> and \<^verbatim>\<open>m\<close>, each
  leading to the directory that holds the other, both pass the test: neither real
  path is a prefix of the working directory. With six frames the scan opens
  \<^verbatim>\<open>/D/A/x.png\<close> four times, reports \<^verbatim>\<open>/D/A\<close> under \<^verbatim>\<open>A\<close>, \<^verbatim>\<open>A/l/m\<close>, \<^verbatim>\<open>B/m\<close> and
  \<^verbatim>\<open>B/m/l/m\<close>, and stops only at the recursion limit.
\<close>

theorem mutual_links_are_followed:
  "follow_link linked_fs ''/D/A'' ''l'' \<and> follow_link linked_fs ''/D/B'' ''m''
   \<and> \<not> follow_link linked_fs ''/D'' ''self''
   \<and> check_dir linked_fs True False 6 (at ''/'') ''D'' ''/'' =
       (Inr (Some (Tree
          [(''A'', Tree [(''l'', Tree [(''m'', Tree [])])]),
           (''B'', Tree [(''m'', Tree [(''l'', Tree [(''m'', Tree [])])])])])),
        \<lparr>cwd = ''/'', logged = [TooDeep ''/D/A'', TooDeep ''/D/B''],
          probed = [(''/D/A'', ''x.png''), (''/D/A'', ''x.png''), (''/D/A'', ''x.png''),
                    (''/D/A'', ''x.png'')]\<rparr>)"
  by code_simp

text \<open>
  The same holds for every number of frames: following \<^verbatim>\<open>l\<close> from \<^verbatim>\<open>/D/A\<close> or \<^verbatim>\<open>m\<close>
  from \<^verbatim>\<open>/D/B\<close> either is cut by the recursion limit or logs that a scan below was, so
  no limit is large enough for the scan of \<^verbatim>\<open>/D\<close> to end without reaching it.
\<close>

lemmas linked_defs =
  linked_fs_def linked_chdir_def linked_listdir_def linked_islink_def linked_isdir_def
  linked_isfile_def linked_realpath_def hidden_def follow_link_def scan_entry_def

lemma mutual_links_reach_the_limit:
  "(cwd s = ''/D/B'' \<longrightarrow>
      fst (check_dir linked_fs True False b s ''m'' p) = Inl RecursionError
      \<or> too_deep (snd (check_dir linked_fs True False b s ''m'' p)))
   \<and> (cwd s = ''/D/A'' \<longrightarrow>
      fst (check_dir linked_fs True False b s ''l'' p) = Inl RecursionError
      \<or> too_deep (snd (check_dir linked_fs True False b s ''l'' p)))"
proof (induction b arbitrary: s p)
  case 0
  then show ?case by simp
next
  case (Suc r)
  show ?case
  proof (intro conjI impI)
    assume c: "cwd s = ''/D/B''"
    show "fst (check_dir linked_fs True False (Suc r) s ''m'' p) = Inl RecursionError
      \<or> too_deep (snd (check_dir linked_fs True False (Suc r) s ''m'' p))"
    proof (cases "r = 0")
      case True
      then show ?thesis using c by (simp add: linked_defs)
    next
      case False
      let ?s1 = "s\<lparr>cwd := ''/D/A'', probed := probed s @ [(''/D/A'', ''x.png'')]\<rparr>"
      obtain res1 s2 where n: "check_dir linked_fs True False r ?s1 ''l'' ''/D/A'' = (res1, s2)"
        by (cases "check_dir linked_fs True False r ?s1 ''l'' ''/D/A''")
      from Suc.IH [of ?s1 "''/D/A''"] n have ih: "res1 = Inl RecursionError \<or> too_deep s2"
        by simp
      show ?thesis
        using c False n ih
        by (auto simp: linked_defs split: sum.splits exn.splits option.splits)
    qed
  next
    assume c: "cwd s = ''/D/A''"
    show "fst (check_dir linked_fs True False (Suc r) s ''l'' p) = Inl RecursionError
      \<or> too_deep (snd (check_dir linked_fs True False (Suc r) s ''l'' p))"
    proof (cases "r = 0")
      case True
      then show ?thesis using c by (simp add: linked_defs)
    next
      case False
      let ?s1 = "s\<lparr>cwd := ''/D/B''\<rparr>"
      obtain res1 s2 where n: "check_dir linked_fs True False r ?s1 ''m'' ''/D/B'' = (res1, s2)"
        by (cases "check_dir linked_fs True False r ?s1 ''m'' ''/D/B''")
      from Suc.IH [of ?s1 "''/D/B''"] n have ih: "res1 = Inl RecursionError \<or> too_deep s2"
        by simp
      show ?thesis
        using c False n ih
        by (auto simp: linked_defs split: sum.splits exn.splits option.splits)
    qed
  qed
qed


lemma scan_of_A_too_deep:
  assumes "cwd s = ''/D''" and "1 < b"
  shows "too_deep (snd (check_dir linked_fs True False b s ''A'' p))"
proof -
  obtain r where b: "b = Suc r" and r: "0 < r"
    using assms(2) by (cases b) auto
  let ?s1 = "s\<lparr>cwd := ''/D/A'', probed := probed s @ [(''/D/A'', ''x.png'')]\<rparr>"
  obtain res1 s2 where n: "check_dir linked_fs True False r ?s1 ''l'' ''/D/A'' = (res1, s2)"
    by (cases "check_dir linked_fs True False r ?s1 ''l'' ''/D/A''")
  from mutual_links_reach_the_limit [of ?s1 r "''/D/A''"] n
  have ih: "res1 = Inl RecursionError \<or> too_deep s2" by simp
  show ?thesis
    unfolding b using assms(1) r n ih
    by (auto simp: linked_defs split: sum.splits exn.splits option.splits)
qed

lemma check_entries_too_deep:
  assumes "too_deep s"
  shows "too_deep (snd (check_entries fs rc sh r (check_dir fs rc sh r) es e c s))"
proof -
  have call: "\<forall>s d p res s'. check_dir fs rc sh r s d p = (res, s') \<longrightarrow>
      prefix (logged s) (logged s')"
    using check_dir_log by blast
  obtain res s' where ce: "check_entries fs rc sh r (check_dir fs rc sh r) es e c s = (res, s')"
    by (cases "check_entries fs rc sh r (check_dir fs rc sh r) es e c s")
  from check_entries_log [where call = "check_dir fs rc sh r", OF call ce]
  have "prefix (logged s) (logged s')" .
  then have "too_deep s'" using assms by (rule too_deep_mono)
  then show ?thesis by (simp add: ce)
qed


lemma scan_of_mutual_links_too_deep:
  assumes "2 < b"
  shows "too_deep (snd (check_dir linked_fs True False b (at ''/'') ''D'' ''/''))"
proof -
  obtain r where b: "b = Suc r" and r: "1 < r"
    using assms by (cases b) auto
  let ?s0 = "(at ''/'')\<lparr>cwd := ''/D''\<rparr>"
  let ?call = "check_dir linked_fs True False r"
  obtain resA s3 where a: "?call ?s0 ''A'' ''..'' = (resA, s3)"
    by (cases "?call ?s0 ''A'' ''..''")
  have td: "too_deep s3"
    using scan_of_A_too_deep [of ?s0 r "''..''"] a r by simp
  have rest: "too_deep (snd (check_entries linked_fs True False r ?call [''B''] e c s3))"
    for e c
    using check_entries_too_deep [OF td] .
  have r0: "r \<noteq> 0" using r by simp
  have loop: "too_deep (snd (check_entries linked_fs True False r ?call
      [''self'', ''A'', ''B''] True [] ?s0))"
  proof (cases resA)
    case (Inl x)
    then show ?thesis using a td r0 by (cases x) (simp_all add: linked_defs at_def)
  next
    case (Inr t)
    then show ?thesis
      using a r0 rest [of True "[]"] rest [of True "[(''A'', the t)]"]
      by (cases t) (simp_all add: linked_defs at_def)
  qed
  obtain lres s4 where l: "check_entries linked_fs True False r ?call
      [''self'', ''A'', ''B''] True [] ?s0 = (lres, s4)"
    by (cases "check_entries linked_fs True False r ?call
      [''self'', ''A'', ''B''] True [] ?s0")
  have s4: "too_deep s4" using loop l by simp
  have cd: "check_dir linked_fs True False (Suc r) (at ''/'') ''D'' ''/'' =
      (case lres of Inl e \<Rightarrow> (Inl e, s4)
       | Inr (e, c) \<Rightarrow> (Inr (if e \<and> c = [] then None else Some (Tree c)), s4\<lparr>cwd := ''/''\<rparr>))"
    using l by (simp add: linked_fs_def linked_chdir_def linked_listdir_def at_def
        split: sum.splits)
  show ?thesis unfolding b cd using s4 by (simp split: sum.splits prod.splits)
qed

subsection \<open>The working directory on return\<close>

text \<open>
  As long as no recursion-depth error is logged, every call that entered its
  directory returns with the working directory where \<^verbatim>\<open>prev_dir\<close> leads from inside
  it: each recursive call comes back to the directory being scanned, so the last
  \<^verbatim>\<open>os.chdir(prev_dir)\<close> starts from there.
\<close>

lemma call_restoresD:
  assumes "call_restores fs D call" and "cwd s \<in> D" and "call s e p = (Inr res, s')"
    and "\<not> too_deep s'"
  shows "case os_chdir fs (cwd s) e of None \<Rightarrow> cwd s' = cwd s
         | Some d \<Rightarrow> os_chdir fs d p = Some (cwd s')"
  using assms(1) [unfolded call_restores_def, rule_format, OF assms(2,3,4)] .

lemma returns_back:
  "returns fs D \<Longrightarrow> c \<in> D \<Longrightarrow> os_chdir fs c e = Some d \<Longrightarrow>
   d \<in> D \<and> os_chdir fs d c = Some c"
  unfolding returns_def by blast

lemma returns_parent:
  "returns fs D \<Longrightarrow> c \<in> D \<Longrightarrow> os_listdir fs c = Some es \<Longrightarrow> e \<in> set es \<Longrightarrow>
   \<not> islink fs c e \<Longrightarrow> os_chdir fs c e = Some d \<Longrightarrow> os_chdir fs d ''..'' = Some c"
  unfolding returns_def by blast

lemma scan_entry_calls:
  assumes "scan_entry fs r call s entry = (Inr res, s')"
  shows "(\<not> enters fs (cwd s) entry \<and> res = None \<and> s' = s)
     \<or> (enters fs (cwd s) entry
         \<and> call s entry (if islink fs (cwd s) entry then cwd s else ''..'') = (Inr res, s'))"
  using assms by (auto simp: scan_entry_def enters_def follow_link_def split: if_splits)

lemma scan_entry_restores:
  assumes ret: "returns fs D" and call: "call_restores fs D call"
    and d: "cwd s \<in> D" and ls: "os_listdir fs (cwd s) = Some all" and e: "entry \<in> set all"
    and se: "scan_entry fs r call s entry = (Inr res, s')" and td: "\<not> too_deep s'"
  shows "cwd s' = cwd s"
proof -
  from scan_entry_calls [OF se] consider (skip) "s' = s"
    | (rec) "call s entry (if islink fs (cwd s) entry then cwd s else ''..'') = (Inr res, s')"
    by blast
  then show ?thesis
  proof cases
    case skip
    then show ?thesis by simp
  next
    case rec
    show ?thesis
    proof (cases "os_chdir fs (cwd s) entry")
      case None
      then show ?thesis using call_restoresD [OF call d rec td] by simp
    next
      case (Some d')
      have "os_chdir fs d' (if islink fs (cwd s) entry then cwd s else ''..'') = Some (cwd s)"
        using returns_back [OF ret d Some] returns_parent [OF ret d ls e _ Some] by auto
      then show ?thesis using call_restoresD [OF call d rec td] Some by simp
    qed
  qed
qed

lemma check_entries_restores:
  assumes ret: "returns fs D" and call: "call_restores fs D call"
    and lg: "\<forall>s d p res s'. call s d p = (res, s') \<longrightarrow> prefix (logged s) (logged s')"
    and ls: "os_listdir fs c0 = Some all"  and d: "c0 \<in> D"
  shows "set es \<subseteq> set all \<Longrightarrow> cwd s = c0 \<Longrightarrow>
         check_entries fs rc sh r call es e c s = (Inr res, s') \<Longrightarrow> \<not> too_deep s' \<Longrightarrow>
         cwd s' = c0"
proof (induction es arbitrary: e c s)
  case Nil
  then show ?case by auto
next
  case (Cons entry es)
  have sub: "set es \<subseteq> set all" and mem: "entry \<in> set all" using Cons.prems(1) by auto
  show ?case
  proof (cases "(hidden entry \<and> \<not> sh) \<or> r < need fs Isfile \<or> isfile fs (cwd s) entry \<or> \<not> rc")
    case True
    then show ?thesis
      using Cons.prems Cons.IH [OF sub, of s e c]
        Cons.IH [OF sub, of "s\<lparr>probed := probed s @ [(cwd s, entry)]\<rparr>"
          "\<not> (need fs Open \<le> r \<and> pil_open fs (cwd s) entry)" c]
      by (auto split: if_splits)
  next
    case False
    then have f: "\<not> (hidden entry \<and> \<not> sh)" "\<not> r < need fs Isfile" "\<not> isfile fs (cwd s) entry" "rc"
      by auto
    obtain res1 s1 where se: "scan_entry fs r call s entry = (res1, s1)"
      by (cases "scan_entry fs r call s entry")
    show ?thesis
    proof (cases res1)
      case (Inl x)
      then show ?thesis using Cons.prems(3,4) se by (cases x) (auto simp: f split: if_splits)
    next
      case (Inr o1)
      obtain c1 where rest: "check_entries fs rc sh r call es e c1 s1 = (Inr res, s')"
        using Cons.prems(3) se Inr by (cases o1) (auto simp: f)
      have "prefix (logged s1) (logged s')"
        using check_entries_log [OF lg rest] .
      then have td1: "\<not> too_deep s1" using Cons.prems(4) too_deep_mono by blast
      have "cwd s1 = cwd s"
        using scan_entry_restores [OF ret call _ _ mem _ td1, where s = s and res = o1 and r = r]
          se Inr d ls Cons.prems(2)
        by simp
      then have "cwd s1 = c0" using Cons.prems(2) by simp
      from Cons.IH [OF sub this rest Cons.prems(4)] show ?thesis .
    qed
  qed
qed

lemma check_dir_restores: "returns fs D \<Longrightarrow> call_restores fs D (check_dir fs rc sh b)"
proof (induction b)
  case 0
  then show ?case by (simp add: call_restores_def)
next
  case (Suc r)
  then have call: "call_restores fs D (check_dir fs rc sh r)" by simp
  have lg: "\<forall>s d p res s'. check_dir fs rc sh r s d p = (res, s') \<longrightarrow>
      prefix (logged s) (logged s')"
    using check_dir_log by blast
  show ?case
    unfolding call_restores_def
  proof (intro allI impI)
    fix s e p res s'
    assume d: "cwd s \<in> D" and cd: "check_dir fs rc sh (Suc r) s e p = (Inr res, s')"
      and td: "\<not> too_deep s'"
    show "case os_chdir fs (cwd s) e of None \<Rightarrow> cwd s' = cwd s
          | Some d \<Rightarrow> os_chdir fs d p = Some (cwd s')"
    proof (cases "os_chdir fs (cwd s) e")
      case None
      then show ?thesis using cd by (auto split: if_splits)
    next
      case (Some d')
      then have d': "d' \<in> D" using returns_back [OF Suc.prems d] by simp
      show ?thesis
      proof (cases "os_listdir fs d'")
        case None
        then show ?thesis using cd Some by (auto split: if_splits option.splits)
      next
        case entries: (Some entries)
        obtain lres s1 where ce: "check_entries fs rc sh r (check_dir fs rc sh r) entries True []
              (s\<lparr>cwd := d'\<rparr>) = (lres, s1)"
          by (cases "check_entries fs rc sh r (check_dir fs rc sh r) entries True [] (s\<lparr>cwd := d'\<rparr>)")
        obtain ec where l: "lres = Inr ec" and s': "os_chdir fs (cwd s1) p = Some (cwd s')"
          and lg': "logged s' = logged s1"
          using cd Some entries ce by (auto split: sum.splits option.splits)
        have "\<not> too_deep s1" using td lg' by (simp add: too_deep_def)
        from check_entries_restores [where call = "check_dir fs rc sh r", OF Suc.prems call lg
            entries d' _ _ ce [unfolded l] this]
        have "cwd s1 = d'" by simp
        then show ?thesis using Some s' by simp
      qed
    qed
  qed
qed

lemma working_directory_restored:
  assumes "returns fs D" and "cwd s \<in> D"
    and "check_dir fs rc sh b s dir prev = (Inr res, s')" and "\<not> too_deep s'"
    and "os_chdir fs (cwd s) dir = Some d"
  shows "os_chdir fs d prev = Some (cwd s')"
proof -
  have "call_restores fs D (check_dir fs rc sh b)"
    using check_dir_restores [OF assms(1)] .
  from call_restoresD [OF this assms(2,3,4)] show ?thesis using assms(5) by simp
qed


lemma nested_returns: "returns nested_fs {''/'', ''/top'', ''/top/a'', ''/top/a/b''}"
proof -
  have a: "d \<in> {''/'', ''/top'', ''/top/a'', ''/top/a/b''} \<and> os_chdir nested_fs d c = Some c"
    if "c \<in> {''/'', ''/top'', ''/top/a'', ''/top/a/b''}" and "os_chdir nested_fs c e = Some d"
    for c e d
    using that
    by (auto simp: nested_fs_def nested_chdir_def nested_parent_def split: if_splits)
  have b: "os_chdir nested_fs d ''..'' = Some c"
    if "c \<in> {''/'', ''/top'', ''/top/a'', ''/top/a/b''}"
      and "os_listdir nested_fs c = Some es" and "e \<in> set es"
      and "os_chdir nested_fs c e = Some d"
    for c es e d
    using that
    by (auto simp: nested_fs_def nested_chdir_def nested_parent_def nested_listdir_def
        split: if_splits)
  show ?thesis unfolding returns_def using a b by blast
qed

lemma working_directory_restored_example:
  "os_chdir nested_fs ''/top/a'' ''..'' =
     Some (cwd (snd (check_dir nested_fs True False 3 (at ''/top'') ''a'' ''..'')))"
proof -
  have e: "check_dir nested_fs True False 3 (at ''/top'') ''a'' ''..'' =
     (Inr (Some (Tree [(''b'', Tree [])])),
      \<lparr>cwd = ''/top'', logged = [],
        probed = [(''/top/a/b'', ''c.png''), (''/top/a'', ''y.png'')]\<rparr>)"
    by code_simp
  have c: "cwd (at ''/top'') \<in> {''/'', ''/top'', ''/top/a'', ''/top/a/b''}"
    by (simp add: at_def)
  have td: "\<not> too_deep \<lparr>cwd = ''/top'', logged = [],
        probed = [(''/top/a/b'', ''c.png''), (''/top/a'', ''y.png'')]\<rparr>"
    by (simp add: too_deep_def)
  have "os_chdir nested_fs (cwd (at ''/top'')) ''a'' = Some ''/top/a''"
    by code_simp
  from working_directory_restored [OF nested_returns c e td this] show ?thesis
    by (simp add: e)
qed

text \<open>
  C8. On return the working directory should be \<^verbatim>\<open>prev_dir\<close>, the parent of the
  scanned directory by default. Scanning \<^verbatim>\<open>a\<close> from \<^verbatim>\<open>/top\<close> with two frames: the scan
  of \<^verbatim>\<open>b\<close> enters \<^verbatim>\<open>/top/a/b\<close> and raises \<^verbatim>\<open>RecursionError\<close> at its first entry without
  going back; the scan of \<^verbatim>\<open>a\<close> catches it and runs \<^verbatim>\<open>os.chdir("..")\<close> from
  \<^verbatim>\<open>/top/a/b\<close>, so it returns in \<^verbatim>\<open>/top/a\<close>, not in \<^verbatim>\<open>/top\<close>. One level up, with three
  frames, the scan of \<^verbatim>\<open>top\<close> from \<^verbatim>\<open>/\<close> caught nothing itself and still returns in
  \<^verbatim>\<open>/top\<close>, not in \<^verbatim>\<open>/\<close>.
\<close>

theorem working_directory_after_recursion_error:
  "os_chdir nested_fs ''/top'' ''a'' = Some ''/top/a''
   \<and> os_chdir nested_fs ''/top/a'' ''..'' = Some ''/top''
   \<and> check_dir nested_fs True False 2 (at ''/top'') ''a'' ''..'' =
       (Inr None, \<lparr>cwd = ''/top/a'', logged = [TooDeep ''/top/a/b''], probed = []\<rparr>)
   \<and> os_chdir nested_fs ''/'' ''top'' = Some ''/top''
   \<and> os_chdir nested_fs ''/top'' ''..'' = Some ''/''
   \<and> check_dir nested_fs True False 3 (at ''/'') ''top'' ''..'' =
       (Inr None, \<lparr>cwd = ''/top'', logged = [TooDeep ''/top/a/b''], probed = []\<rparr>)"
  by code_simp

end
